theory Spec2Isabelle
  imports Complex_Main "HOL-Library.Word"
begin

section \<open>isshc: the interactive receive loop of \<open>InteractiveSSHClient\<close>\<close>

text \<open>
  A shallow embedding of \<^verbatim>\<open>src/isshc/isshc.py\<close>. The client talks to three
  collaborators that are not part of the repository: the paramiko channel, the
  system clock and \<^verbatim>\<open>select\<close>, and Python's \<^verbatim>\<open>re\<close> and codecs. They are
  parameters of the model: the channel and the clock act on a world \<open>'w\<close> that every
  call threads through, the codec is the value of the \<^verbatim>\<open>encoding\<close> attribute, and
  \<^verbatim>\<open>re.search\<close> is a predicate on pattern and text. Every call made on the clock,
  the channel or the observer is also written to a trace. Calls to the collaborators are
  modelled where they return; exceptions raised inside them, which the source does
  not catch, are outside the model. The attributes of the client do not change while
  a call runs. Logging is left out. Seconds are real numbers, where Python has
  floats.
\<close>

subsection \<open>Data\<close>

type_synonym byte = "8 word"
type_synonym bytes = "byte list"

text \<open>A Python \<^verbatim>\<open>str\<close> is a sequence of code points.\<close>

type_synonym str = "nat list"

definition ascii :: "string \<Rightarrow> str" where
  "ascii s = map of_char s"

datatype error = ValueError string | RuntimeError string | KeyError str

text \<open>
  The trace: every call made on the clock, the channel and the observer, with its
  arguments and what it returned.
\<close>

datatype event =
    EvNow real
  | EvSelect "real option" bool
  | EvRecvReady bool
  | EvRecv int bytes
  | EvSend bytes int
  | EvObserve str

type_synonym 'w io = "'w \<times> event list"

text \<open>
  What \<^verbatim>\<open>bytes.decode(encoding, "strict")\<close>, \<^verbatim>\<open>bytes.decode(encoding, "replace")\<close>
  and \<^verbatim>\<open>str.encode(encoding)\<close> compute for one encoding name. In \<open>decode_strict\<close>,
  \<open>None\<close> is \<^verbatim>\<open>UnicodeDecodeError\<close>.
\<close>

record codec =
  decode_strict :: "bytes \<Rightarrow> str option"
  decode_replace :: "bytes \<Rightarrow> str"
  encode :: "str \<Rightarrow> bytes"

text \<open>
  The paramiko channel: the \<^verbatim>\<open>closed\<close> attribute, \<^verbatim>\<open>recv_ready()\<close>, \<^verbatim>\<open>recv(n)\<close>,
  \<^verbatim>\<open>send(data)\<close>, and whether \<^verbatim>\<open>select.select([channel], [], [], timeout)\<close> gives
  a non-empty read list.
\<close>

record 'w channel =
  ch_closed :: "'w \<Rightarrow> bool"
  ch_select :: "real option \<Rightarrow> 'w \<Rightarrow> bool \<times> 'w"
  ch_recv_ready :: "'w \<Rightarrow> bool \<times> 'w"
  ch_recv :: "int \<Rightarrow> 'w \<Rightarrow> bytes \<times> 'w"
  ch_send :: "bytes \<Rightarrow> 'w \<Rightarrow> int \<times> 'w"

text \<open>\<^verbatim>\<open>datetime.now()\<close>, in seconds, and \<^verbatim>\<open>re.search(pattern, text)\<close> finding a match.\<close>

record 'w platform =
  datetime_now :: "'w \<Rightarrow> real \<times> 'w"
  re_search :: "str \<Rightarrow> str \<Rightarrow> bool"

text \<open>
  The attributes of \<^verbatim>\<open>InteractiveSSHClient\<close> that \<^verbatim>\<open>recv_text\<close> and \<^verbatim>\<open>send_text\<close>
  read. A dictionary is the list of its items in iteration order.
\<close>

record 'w client =
  auto_replies :: "(str \<times> str) list option"
  encoding :: codec
  on_recv_partial_text :: "(str \<Rightarrow> 'w \<Rightarrow> 'w) option"
  prompts :: "str list option"
  recv_nbytes :: int
  recv_timeout :: real
  session :: "'w channel option"

text \<open>The local variables of \<^verbatim>\<open>recv_text\<close> (lines 174 to 177).\<close>

record loop_state =
  wait_start_time :: real
  recv_buffer :: bytes
  text_buffer :: str
  text_archived :: str

text \<open>How one pass of the \<^verbatim>\<open>while True\<close> loop ends.\<close>

datatype 'w outcome =
    Continue loop_state "'w io"
  | Break loop_state "'w io"
  | Return "str \<times> str option" "'w io"
  | Raise error "'w io"

text \<open>How the head of a pass (lines 179 to 189) ends.\<close>

datatype 'w waited =
    Closed "'w io"
  | TimedOut "'w io"
  | Ready "'w channel" "'w io"

subsection \<open>Module-level helpers (lines 14 to 34)\<close>

definition wait_recv_ready :: "'w channel \<Rightarrow> real option \<Rightarrow> 'w io \<Rightarrow> bool \<times> 'w io" where
  "wait_recv_ready chan timeout io =
     (case ch_select chan timeout (fst io) of
        (rlist, w') \<Rightarrow> (rlist, (w', snd io @ [EvSelect timeout rlist])))"

definition read_clock :: "'w platform \<Rightarrow> 'w io \<Rightarrow> real \<times> 'w io" where
  "read_clock P io =
     (case datetime_now P (fst io) of (t, w') \<Rightarrow> (t, (w', snd io @ [EvNow t])))"

definition try_decode :: "bytes \<Rightarrow> codec \<Rightarrow> str option" where
  "try_decode data enc = decode_strict enc data"

fun find_pattern :: "(str \<Rightarrow> str \<Rightarrow> bool) \<Rightarrow> str list \<Rightarrow> str \<Rightarrow> str option" where
  "find_pattern search [] t = None"
| "find_pattern search (pattern # patterns) t =
     (if search pattern t then Some pattern else find_pattern search patterns t)"

text \<open>
  The truth value Python gives an \<^verbatim>\<open>Optional[str]\<close> in \<^verbatim>\<open>if x := ...\<close>: \<^verbatim>\<open>None\<close>
  and the empty string are both false.
\<close>

definition truthy :: "str option \<Rightarrow> bool" where
  "truthy r = (case r of None \<Rightarrow> False | Some p \<Rightarrow> p \<noteq> [])"

subsection \<open>\<^verbatim>\<open>send_text\<close> (lines 224 to 243)\<close>

definition send_text :: "'w client \<Rightarrow> str \<Rightarrow> 'w io \<Rightarrow> (error + int) \<times> 'w io" where
  "send_text c t io =
     (case session c of
        None \<Rightarrow> (Inl (RuntimeError ''Not connected.''), io)
      | Some chan \<Rightarrow>
          (let data = encode (encoding c) t in
           case ch_send chan data (fst io) of
             (n, w') \<Rightarrow> (Inr n, (w', snd io @ [EvSend data n]))))"

subsection \<open>\<^verbatim>\<open>recv_text\<close> (lines 142 to 222)\<close>

text \<open>
  Lines 191 and 192: read while the channel says it has data. The loop need not end,
  so not returning is \<open>None\<close>.
\<close>

partial_function (option) drain ::
  "'w channel \<Rightarrow> int \<Rightarrow> bytes \<Rightarrow> 'w io \<Rightarrow> (bytes \<times> 'w io) option" where
  "drain chan n buf io =
     (case ch_recv_ready chan (fst io) of
        (ready, w1) \<Rightarrow>
          if ready then
            (case ch_recv chan n w1 of
               (data, w2) \<Rightarrow>
                 drain chan n (buf @ data) (w2, snd io @ [EvRecvReady True, EvRecv n data]))
          else Some (buf, (w1, snd io @ [EvRecvReady False])))"

declare drain.simps [code]

text \<open>The observer call of lines 196 to 197 and 220 to 221.\<close>

definition notify :: "'w client \<Rightarrow> str \<Rightarrow> 'w io \<Rightarrow> 'w io" where
  "notify c t io =
     (case on_recv_partial_text c of
        None \<Rightarrow> io
      | Some handler \<Rightarrow> (handler t (fst io), snd io @ [EvObserve t]))"

text \<open>Lines 213 to 215: the prompt patterns, then the end of the pass.\<close>

definition classify_prompt ::
  "'w platform \<Rightarrow> str list \<Rightarrow> loop_state \<Rightarrow> 'w io \<Rightarrow> 'w outcome" where
  "classify_prompt P prompts_arg s io =
     (let prompt = find_pattern (re_search P) prompts_arg (text_buffer s) in
      case prompt of
        None \<Rightarrow> Continue s io
      | Some p \<Rightarrow>
          if truthy prompt then Return (text_archived s @ text_buffer s, Some p) io
          else Continue s io)"

text \<open>Lines 201 to 211: the auto-reply patterns.\<close>

definition classify ::
  "'w platform \<Rightarrow> 'w client \<Rightarrow> (str \<times> str) list \<Rightarrow> str list \<Rightarrow> loop_state \<Rightarrow> 'w io
     \<Rightarrow> 'w outcome" where
  "classify P c auto_replies_arg prompts_arg s io =
     (let auto_reply = find_pattern (re_search P) (map fst auto_replies_arg) (text_buffer s) in
      case auto_reply of
        None \<Rightarrow> classify_prompt P prompts_arg s io
      | Some p \<Rightarrow>
          if truthy auto_reply then
            (case map_of auto_replies_arg p of
               None \<Rightarrow> Raise (KeyError p) io
             | Some reply_text \<Rightarrow>
                 (case send_text c reply_text io of
                    (Inl e, io1) \<Rightarrow> Raise e io1
                  | (Inr n, io1) \<Rightarrow>
                      (case read_clock P io1 of
                         (t, io2) \<Rightarrow>
                           Continue
                             (s\<lparr>wait_start_time := t,
                                text_archived := text_archived s @ text_buffer s,
                                text_buffer := []\<rparr>)
                             io2)))
          else classify_prompt P prompts_arg s io)"

text \<open>Lines 193 to 215: what a pass does with the buffer once the channel is drained.\<close>

definition decode_classify ::
  "'w platform \<Rightarrow> 'w client \<Rightarrow> (str \<times> str) list \<Rightarrow> str list \<Rightarrow> loop_state \<Rightarrow> 'w io
     \<Rightarrow> 'w outcome" where
  "decode_classify P c auto_replies_arg prompts_arg s io =
     (case try_decode (recv_buffer s) (encoding c) of
        None \<Rightarrow> Continue s io
      | Some decoded \<Rightarrow>
          classify P c auto_replies_arg prompts_arg
            (s\<lparr>text_buffer := text_buffer s @ decoded, recv_buffer := []\<rparr>)
            (notify c decoded io))"

text \<open>The flush of lines 181 and 188: \<^verbatim>\<open>text_archived += text_buffer\<close>, then \<^verbatim>\<open>break\<close>.\<close>

definition flush :: "loop_state \<Rightarrow> loop_state" where
  "flush s = s\<lparr>text_archived := text_archived s @ text_buffer s\<rparr>"

text \<open>
  Lines 179 to 189: the head of a pass. It ends the loop when there is no session or
  the channel is closed, and when the wait for data runs into its timeout.
\<close>

definition await_data :: "'w platform \<Rightarrow> 'w client \<Rightarrow> loop_state \<Rightarrow> 'w io \<Rightarrow> 'w waited" where
  "await_data P c s io =
     (case session c of
        None \<Rightarrow> Closed io
      | Some chan \<Rightarrow>
          if ch_closed chan (fst io) then Closed io
          else
            (case read_clock P io of
               (t, io1) \<Rightarrow>
                 (let elapsed = t - wait_start_time s;
                      timeout_remaining = max 0 (recv_timeout c - elapsed)
                  in case wait_recv_ready chan (Some timeout_remaining) io1 of
                       (ready, io2) \<Rightarrow> if \<not> ready then TimedOut io2 else Ready chan io2)))"

text \<open>Lines 179 to 215: one pass of the loop.\<close>

definition recv_pass ::
  "'w platform \<Rightarrow> 'w client \<Rightarrow> (str \<times> str) list \<Rightarrow> str list \<Rightarrow> loop_state \<Rightarrow> 'w io
     \<Rightarrow> 'w outcome option" where
  "recv_pass P c auto_replies_arg prompts_arg s io =
     (case await_data P c s io of
        Closed io' \<Rightarrow> Some (Break (flush s) io')
      | TimedOut io' \<Rightarrow> Some (Break (flush s) io')
      | Ready chan io2 \<Rightarrow>
          (case drain chan (recv_nbytes c) (recv_buffer s) io2 of
             None \<Rightarrow> None
           | Some (buf, io3) \<Rightarrow>
               Some (decode_classify P c auto_replies_arg prompts_arg
                       (s\<lparr>recv_buffer := buf\<rparr>) io3)))"

text \<open>Lines 217 to 222: what follows the loop after a \<^verbatim>\<open>break\<close>.\<close>

definition finish :: "'w client \<Rightarrow> loop_state \<Rightarrow> 'w io \<Rightarrow> (str \<times> str option) \<times> 'w io" where
  "finish c s io =
     (if recv_buffer s \<noteq> [] then
        (let text_broken = decode_replace (encoding c) (recv_buffer s) in
         ((text_archived s @ text_buffer s @ text_broken, None), notify c text_broken io))
      else ((text_archived s @ text_buffer s @ [], None), io))"

text \<open>The \<^verbatim>\<open>while True\<close> loop of line 178 with what follows it.\<close>

partial_function (option) recv_loop ::
  "'w platform \<Rightarrow> 'w client \<Rightarrow> (str \<times> str) list \<Rightarrow> str list \<Rightarrow> loop_state \<Rightarrow> 'w io
     \<Rightarrow> ((error + str \<times> str option) \<times> 'w io) option" where
  "recv_loop P c auto_replies_arg prompts_arg s io =
     (case recv_pass P c auto_replies_arg prompts_arg s io of
        None \<Rightarrow> None
      | Some out \<Rightarrow>
          (case out of
             Continue s' io' \<Rightarrow> recv_loop P c auto_replies_arg prompts_arg s' io'
           | Break s' io' \<Rightarrow> (case finish c s' io' of (r, io'') \<Rightarrow> Some (Inr r, io''))
           | Return r io' \<Rightarrow> Some (Inr r, io')
           | Raise e io' \<Rightarrow> Some (Inl e, io')))"

declare recv_loop.simps [code]

text \<open>Lines 174 to 177: the variables as the loop finds them.\<close>

definition initial_state :: "real \<Rightarrow> loop_state" where
  "initial_state t0 =
     \<lparr>wait_start_time = t0, recv_buffer = [], text_buffer = [], text_archived = []\<rparr>"

text \<open>\<^verbatim>\<open>x or default\<close> for an optional list or dictionary.\<close>

definition or_default :: "'a list option \<Rightarrow> 'a list" where
  "or_default x = (case x of None \<Rightarrow> [] | Some v \<Rightarrow> if v = [] then [] else v)"

definition recv_text ::
  "'w platform \<Rightarrow> 'w client \<Rightarrow> (str \<times> str) list option \<Rightarrow> str list option \<Rightarrow> 'w io
     \<Rightarrow> ((error + str \<times> str option) \<times> 'w io) option" where
  "recv_text P c auto_replies_arg prompts_arg io =
     (if recv_nbytes c \<le> 0 then
        Some (Inl (ValueError ''recv_nbytes must be greater than 0.''), io)
      else if recv_timeout c \<le> 0 then
        Some (Inl (ValueError ''recv_timeout must be greater than 0.''), io)
      else
        (let ar = (case auto_replies_arg of None \<Rightarrow> or_default (auto_replies c) | Some a \<Rightarrow> a);
             pr = (case prompts_arg of None \<Rightarrow> or_default (prompts c) | Some p \<Rightarrow> p)
         in case read_clock P io of
              (t0, io0) \<Rightarrow> recv_loop P c ar pr (initial_state t0) io0))"

subsection \<open>The default encoding, UTF-8\<close>

text \<open>
  Python's UTF-8 codec on byte values. A byte sequence is ill-formed at an invalid
  start byte (\<^verbatim>\<open>80..C1\<close>, \<^verbatim>\<open>F5..FF\<close>), at a byte that is no continuation of what
  precedes it (which covers overlong forms, surrogates and code points above
  \<^verbatim>\<open>10FFFF\<close>), and at the end of the data inside a character. With \<open>Strict\<close>
  that is \<^verbatim>\<open>UnicodeDecodeError\<close>; with \<open>Replace\<close> the offending bytes become
  one \<^verbatim>\<open>U+FFFD\<close> and decoding goes on behind them.
\<close>

datatype errors = Strict | Replace

definition is_cont :: "nat \<Rightarrow> bool" where
  "is_cont b = (0x80 \<le> b \<and> b < 0xC0)"

definition emit :: "nat \<Rightarrow> str option \<Rightarrow> str option" where
  "emit cp r = map_option ((#) cp) r"

definition on_error :: "errors \<Rightarrow> str option \<Rightarrow> str option" where
  "on_error e r = (case e of Strict \<Rightarrow> None | Replace \<Rightarrow> emit 0xFFFD r)"

fun utf8_decode :: "errors \<Rightarrow> nat list \<Rightarrow> str option" where
  "utf8_decode e [] = Some []"
| "utf8_decode e (b0 # bs) =
     (if b0 < 0x80 then emit b0 (utf8_decode e bs)
      else if b0 < 0xC2 then on_error e (utf8_decode e bs)
      else if b0 < 0xE0 then
        (case bs of
           [] \<Rightarrow> on_error e (Some [])
         | b1 # r1 \<Rightarrow>
             if \<not> is_cont b1 then on_error e (utf8_decode e bs)
             else emit ((b0 - 0xC0) * 0x40 + (b1 - 0x80)) (utf8_decode e r1))
      else if b0 < 0xF0 then
        (case bs of
           [] \<Rightarrow> on_error e (Some [])
         | b1 # r1 \<Rightarrow>
             if \<not> is_cont b1 \<or> (if b1 < 0xA0 then b0 = 0xE0 else b0 = 0xED)
             then on_error e (utf8_decode e bs)
             else
               (case r1 of
                  [] \<Rightarrow> on_error e (Some [])
                | b2 # r2 \<Rightarrow>
                    if \<not> is_cont b2 then on_error e (utf8_decode e r1)
                    else emit ((b0 - 0xE0) * 0x1000 + (b1 - 0x80) * 0x40 + (b2 - 0x80))
                           (utf8_decode e r2)))
      else if b0 < 0xF5 then
        (case bs of
           [] \<Rightarrow> on_error e (Some [])
         | b1 # r1 \<Rightarrow>
             if \<not> is_cont b1 \<or> (if b1 < 0x90 then b0 = 0xF0 else b0 = 0xF4)
             then on_error e (utf8_decode e bs)
             else
               (case r1 of
                  [] \<Rightarrow> on_error e (Some [])
                | b2 # r2 \<Rightarrow>
                    if \<not> is_cont b2 then on_error e (utf8_decode e r1)
                    else
                      (case r2 of
                         [] \<Rightarrow> on_error e (Some [])
                       | b3 # r3 \<Rightarrow>
                           if \<not> is_cont b3 then on_error e (utf8_decode e r2)
                           else emit ((b0 - 0xF0) * 0x40000 + (b1 - 0x80) * 0x1000
                                        + (b2 - 0x80) * 0x40 + (b3 - 0x80))
                                  (utf8_decode e r3))))
      else on_error e (utf8_decode e bs))"

definition utf8_encode_char :: "nat \<Rightarrow> nat list" where
  "utf8_encode_char cp =
     (if cp < 0x80 then [cp]
      else if cp < 0x800 then [0xC0 + cp div 0x40, 0x80 + cp mod 0x40]
      else if cp < 0x10000 then
        [0xE0 + cp div 0x1000, 0x80 + cp div 0x40 mod 0x40, 0x80 + cp mod 0x40]
      else
        [0xF0 + cp div 0x40000, 0x80 + cp div 0x1000 mod 0x40,
         0x80 + cp div 0x40 mod 0x40, 0x80 + cp mod 0x40])"

definition utf8_encode :: "str \<Rightarrow> nat list" where
  "utf8_encode t = concat (map utf8_encode_char t)"

text \<open>
  The code points Python's UTF-8 codec encodes: no surrogates, at most \<^verbatim>\<open>10FFFF\<close>.
  For any other code point \<^verbatim>\<open>str.encode\<close> raises \<^verbatim>\<open>UnicodeEncodeError\<close>, which the
  source does not catch; \<open>utf8_encode_char\<close> is meant for these code points only.
\<close>

definition scalar :: "nat \<Rightarrow> bool" where
  "scalar cp = (cp < 0xD800 \<or> (0xE000 \<le> cp \<and> cp < 0x110000))"

definition utf8 :: codec where
  "utf8 =
     \<lparr>decode_strict = (\<lambda>data. utf8_decode Strict (map unat data)),
      decode_replace =
        (\<lambda>data. case utf8_decode Replace (map unat data) of None \<Rightarrow> [] | Some t \<Rightarrow> t),
      encode = (\<lambda>t. map of_nat (utf8_encode t))\<rparr>"

subsection \<open>A pattern without metacharacters\<close>

text \<open>
  For a pattern made of literal characters only, \<^verbatim>\<open>re.search\<close> finds a match where
  the pattern occurs in the text.
\<close>

fun starts_with :: "str \<Rightarrow> str \<Rightarrow> bool" where
  "starts_with [] t = True"
| "starts_with (p # ps) [] = False"
| "starts_with (p # ps) (x # xs) = (p = x \<and> starts_with ps xs)"

fun literal_search :: "str \<Rightarrow> str \<Rightarrow> bool" where
  "literal_search p [] = (p = [])"
| "literal_search p (x # xs) = (starts_with p (x # xs) \<or> literal_search p xs)"

subsection \<open>A scripted channel\<close>

text \<open>
  A deterministic channel in the style of the fakes of \<^verbatim>\<open>tests/test_isshc.py\<close>:
  \<open>fw_avail\<close> holds the bytes that can be read now, \<open>fw_later\<close> the chunks that arrive
  one at a time while the client waits in \<^verbatim>\<open>select\<close>, \<open>fw_after_send\<close> the chunks
  that the other side sends in answer to a write. A wait with nothing to arrive runs
  into its timeout and moves the clock by it.
\<close>

record fake_world =
  fw_clock :: real
  fw_closed :: bool
  fw_avail :: bytes
  fw_later :: "bytes list"
  fw_after_send :: "bytes list"
  fw_sent :: "bytes list"
  fw_seen :: "str list"

definition fake_select :: "real option \<Rightarrow> fake_world \<Rightarrow> bool \<times> fake_world" where
  "fake_select timeout w =
     (if fw_avail w \<noteq> [] then (True, w)
      else
        (case fw_later w of
           chunk # rest \<Rightarrow> (True, w\<lparr>fw_avail := chunk, fw_later := rest\<rparr>)
         | [] \<Rightarrow>
             (False, w\<lparr>fw_clock := fw_clock w + (case timeout of None \<Rightarrow> 0 | Some d \<Rightarrow> d)\<rparr>)))"

definition fake_recv :: "int \<Rightarrow> fake_world \<Rightarrow> bytes \<times> fake_world" where
  "fake_recv n w = (take (nat n) (fw_avail w), w\<lparr>fw_avail := drop (nat n) (fw_avail w)\<rparr>)"

definition fake_send :: "bytes \<Rightarrow> fake_world \<Rightarrow> int \<times> fake_world" where
  "fake_send data w =
     (int (length data),
      (case fw_after_send w of
         [] \<Rightarrow> w\<lparr>fw_sent := fw_sent w @ [data]\<rparr>
       | chunk # rest \<Rightarrow>
           w\<lparr>fw_sent := fw_sent w @ [data], fw_avail := fw_avail w @ chunk,
             fw_after_send := rest\<rparr>))"

definition fake_channel :: "fake_world channel" where
  "fake_channel =
     \<lparr>ch_closed = fw_closed,
      ch_select = fake_select,
      ch_recv_ready = (\<lambda>w. (fw_avail w \<noteq> [], w)),
      ch_recv = fake_recv,
      ch_send = fake_send\<rparr>"

text \<open>Reading the clock takes a second.\<close>

definition fake_now :: "fake_world \<Rightarrow> real \<times> fake_world" where
  "fake_now w = (fw_clock w, w\<lparr>fw_clock := fw_clock w + 1\<rparr>)"

definition fake_platform :: "fake_world platform" where
  "fake_platform = \<lparr>datetime_now = fake_now, re_search = literal_search\<rparr>"

definition fake_observer :: "str \<Rightarrow> fake_world \<Rightarrow> fake_world" where
  "fake_observer t w = w\<lparr>fw_seen := fw_seen w @ [t]\<rparr>"

definition quiet_world :: fake_world where
  "quiet_world =
     \<lparr>fw_clock = 0, fw_closed = False, fw_avail = [], fw_later = [], fw_after_send = [],
      fw_sent = [], fw_seen = []\<rparr>"

text \<open>The client as \<^verbatim>\<open>__init__\<close> leaves it (lines 66 to 78), with the session given.\<close>

definition new_client :: "'w channel option \<Rightarrow> 'w client" where
  "new_client sess =
     \<lparr>auto_replies = None, encoding = utf8, on_recv_partial_text = None, prompts = None,
      recv_nbytes = 1024, recv_timeout = 30, session = sess\<rparr>"

subsection \<open>Passes, and what the trace tells\<close>

text \<open>
  The state at the head of the loop after \<open>n\<close> passes that went on to a next one;
  \<open>None\<close> when the loop was left, or a pass did not end, before that.
\<close>

fun after_passes ::
  "'w platform \<Rightarrow> 'w client \<Rightarrow> (str \<times> str) list \<Rightarrow> str list \<Rightarrow> nat \<Rightarrow> loop_state \<Rightarrow> 'w io
     \<Rightarrow> (loop_state \<times> 'w io) option" where
  "after_passes P c ar pr 0 s io = Some (s, io)"
| "after_passes P c ar pr (Suc n) s io =
     (case after_passes P c ar pr n s io of
        None \<Rightarrow> None
      | Some (s', io') \<Rightarrow>
          (case recv_pass P c ar pr s' io' of
             Some (Continue s'' io'') \<Rightarrow> Some (s'', io'')
           | _ \<Rightarrow> None))"

fun outcome_io :: "'w outcome \<Rightarrow> 'w io" where
  "outcome_io (Continue s io) = io"
| "outcome_io (Break s io) = io"
| "outcome_io (Return r io) = io"
| "outcome_io (Raise e io) = io"

text \<open>All bytes the channel's \<^verbatim>\<open>recv\<close> has returned, in order.\<close>

fun received :: "event list \<Rightarrow> bytes" where
  "received [] = []"
| "received (EvRecv n data # es) = data @ received es"
| "received (e # es) = received es"

fun is_read :: "event \<Rightarrow> bool" where
  "is_read (EvRecvReady ready) = True"
| "is_read (EvRecv n data) = True"
| "is_read e = False"

fun is_send :: "event \<Rightarrow> bool" where
  "is_send (EvSend data n) = True"
| "is_send e = False"

fun is_select :: "event \<Rightarrow> bool" where
  "is_select (EvSelect timeout ready) = True"
| "is_select e = False"


text \<open>
  The idle timeout as the specification words it, read off the trace of one call. The
  reference point is the clock reading at the start of the call and, after a reply
  has been sent, the next clock reading; nothing else moves it. Every wait must be
  given \<open>max(0, timeout - elapsed)\<close>, where \<open>elapsed\<close> is the latest clock reading minus
  the reference point.
\<close>

record deadline_view =
  waits_ok :: bool
  reference :: real
  latest :: real
  armed :: bool

definition watch :: "real \<Rightarrow> deadline_view \<Rightarrow> event \<Rightarrow> deadline_view" where
  "watch T v e =
     (case e of
        EvNow t \<Rightarrow>
          if armed v then v\<lparr>reference := t, latest := t, armed := False\<rparr>
          else v\<lparr>latest := t\<rparr>
      | EvSelect timeout ready \<Rightarrow>
          v\<lparr>waits_ok := waits_ok v \<and> timeout = Some (max 0 (T - (latest v - reference v)))\<rparr>
      | EvSend data n \<Rightarrow> v\<lparr>armed := True\<rparr>
      | _ \<Rightarrow> v)"

definition at_call_start :: deadline_view where
  "at_call_start = \<lparr>waits_ok = True, reference = 0, latest = 0, armed = True\<rparr>"

definition deadline :: "real \<Rightarrow> event list \<Rightarrow> deadline_view" where
  "deadline T tr = foldl (watch T) at_call_start tr"

subsection \<open>Scenarios\<close>

text \<open>
  The password dialogue: the other side has sent \<^verbatim>\<open>Password:\<close> and sends
  \<^verbatim>\<open>prompt>\<close> only in answer to a write.
\<close>

definition password_client :: "int \<Rightarrow> real \<Rightarrow> fake_world client" where
  "password_client n T =
     (new_client (Some fake_channel))
       \<lparr>auto_replies := Some [(ascii ''Password:'', ascii ''secret\<newline>'')],
        prompts := Some [ascii ''prompt>''],
        recv_nbytes := n, recv_timeout := T\<rparr>"

definition password_world :: fake_world where
  "password_world =
     quiet_world
       \<lparr>fw_avail := encode utf8 (ascii ''Password:''),
        fw_after_send := [encode utf8 (ascii ''prompt>'')]\<rparr>"

text \<open>
  The two bytes of \<^verbatim>\<open>U+00E9\<close> arrive in two reads, and nothing follows them.
\<close>

definition split_char_world :: fake_world where
  "split_char_world = quiet_world\<lparr>fw_avail := [0xC3], fw_later := [[0xA9]]\<rparr>"

text \<open>
  An auto-reply dictionary whose only key is the empty pattern, a prompt, and a
  channel that has sent the prompt.
\<close>

definition empty_pattern_replies :: "(str \<times> str) list" where
  "empty_pattern_replies = [([], ascii ''yes\<newline>'')]"

definition prompt_world :: fake_world where
  "prompt_world = quiet_world\<lparr>fw_avail := encode utf8 (ascii ''prompt>'')\<rparr>"

text \<open>A client with an observer that records what it is called with.\<close>

definition observed_client :: "fake_world client" where
  "observed_client =
     (new_client (Some fake_channel))\<lparr>on_recv_partial_text := Some fake_observer\<rparr>"

text \<open>The loop state with two bytes of a three-byte character still in the raw buffer.\<close>

definition cut_off_state :: loop_state where
  "cut_off_state =
     \<lparr>wait_start_time = 0, recv_buffer = [0xE3, 0x81], text_buffer = [],
      text_archived = ascii ''ok''\<rparr>"

section \<open>Properties\<close>

subsection \<open>Leaving the loop\<close>

lemma recv_loop_break:
  "recv_pass P c ar pr s io = Some (Break s' io') \<Longrightarrow>
   recv_loop P c ar pr s io = Some (Inr (fst (finish c s' io')), snd (finish c s' io'))"
  by (subst recv_loop.simps) (simp split: prod.splits)

lemma recv_loop_return:
  "recv_pass P c ar pr s io = Some (Return r io') \<Longrightarrow>
   recv_loop P c ar pr s io = Some (Inr r, io')"
  by (subst recv_loop.simps) simp

lemma recv_loop_continue:
  "recv_pass P c ar pr s io = Some (Continue s' io') \<Longrightarrow>
   recv_loop P c ar pr s io = recv_loop P c ar pr s' io'"
  by (subst recv_loop.simps) simp

lemma recv_pass_closed:
  "await_data P c s io = Closed io' \<Longrightarrow> recv_pass P c ar pr s io = Some (Break (flush s) io')"
  by (simp add: recv_pass_def)

lemma recv_pass_timed_out:
  "await_data P c s io = TimedOut io' \<Longrightarrow> recv_pass P c ar pr s io = Some (Break (flush s) io')"
  by (simp add: recv_pass_def)

subsection \<open>Configuration and connection errors\<close>

text \<open>
  C6. With \<^verbatim>\<open>recv_nbytes <= 0\<close> or \<^verbatim>\<open>recv_timeout <= 0\<close>, \<^verbatim>\<open>recv_text\<close> raises
  \<^verbatim>\<open>ValueError\<close>, and it does so before anything else happens: the world is the
  one it was called in and the trace has no new entry, so the channel was not
  polled, read or written and the observer was not called.
\<close>

theorem recv_text_rejects_bad_config:
  assumes "recv_nbytes c \<le> 0 \<or> recv_timeout c \<le> 0"
  shows "\<exists>msg. recv_text P c a p io = Some (Inl (ValueError msg), io)"
  using assms by (auto simp: recv_text_def)

theorem recv_text_rejects_bad_config_witness:
  "(recv_nbytes ((new_client (Some fake_channel))\<lparr>recv_timeout := 0\<rparr>) \<le> 0
      \<or> recv_timeout ((new_client (Some fake_channel))\<lparr>recv_timeout := 0\<rparr>) \<le> 0)
   \<and> (\<exists>msg. recv_text fake_platform ((new_client (Some fake_channel))\<lparr>recv_timeout := 0\<rparr>)
          None None (quiet_world, [])
        = Some (Inl (ValueError msg), (quiet_world, [])))"
proof -
  have h: "recv_nbytes ((new_client (Some fake_channel))\<lparr>recv_timeout := 0\<rparr>) \<le> 0
      \<or> recv_timeout ((new_client (Some fake_channel))\<lparr>recv_timeout := 0\<rparr>) \<le> 0"
    by (simp add: new_client_def)
  from recv_text_rejects_bad_config [OF h] h show ?thesis by blast
qed

text \<open>
  C8. \<^verbatim>\<open>send_text\<close> raises \<^verbatim>\<open>RuntimeError("Not connected.")\<close> exactly when the
  session attribute is \<^verbatim>\<open>None\<close>. With a session it encodes the text with the
  configured encoding, calls the channel's \<^verbatim>\<open>send\<close> once with those bytes, and
  returns the count that call returned.
\<close>

theorem send_text_not_connected_iff:
  "(fst (send_text c t io) = Inl (RuntimeError ''Not connected.'')) = (session c = None)
   \<and> (\<forall>chan. session c = Some chan \<longrightarrow>
         send_text c t io =
           (Inr (fst (ch_send chan (encode (encoding c) t) (fst io))),
            (snd (ch_send chan (encode (encoding c) t) (fst io)),
             snd io @ [EvSend (encode (encoding c) t)
                         (fst (ch_send chan (encode (encoding c) t) (fst io)))])))"
  by (auto simp: send_text_def Let_def split: option.splits prod.splits)

theorem send_text_not_connected_iff_witness:
  "session (new_client (Some fake_channel)) = Some fake_channel
   \<and> send_text (new_client (Some fake_channel)) (ascii ''hello'') (quiet_world, []) =
       (Inr 5,
        (quiet_world\<lparr>fw_sent := [[0x68, 0x65, 0x6C, 0x6C, 0x6F]]\<rparr>,
         [EvSend [0x68, 0x65, 0x6C, 0x6C, 0x6F] 5]))
   \<and> fst (send_text (new_client None) (ascii ''hello'') (quiet_world, []))
       = Inl (RuntimeError ''Not connected.'')"
  using send_text_not_connected_iff
          [of "new_client (Some fake_channel)" "ascii ''hello''" "(quiet_world, [])"]
        send_text_not_connected_iff
          [of "new_client None" "ascii ''hello''" "(quiet_world, [])"]
  by (simp add: new_client_def fake_channel_def fake_send_def quiet_world_def utf8_def
      ascii_def utf8_encode_def utf8_encode_char_def)

text \<open>
  C10. With a valid configuration and no session (the attribute is \<^verbatim>\<open>None\<close>),
  \<^verbatim>\<open>recv_text\<close> returns the empty text and no prompt. It reads the clock once and calls
  neither the channel nor the observer: the clock reading is the only new entry of
  the trace. \<^verbatim>\<open>send_text\<close> in the same state raises.
\<close>

theorem recv_text_without_session:
  assumes "0 < recv_nbytes c" and "0 < recv_timeout c" and "session c = None"
  shows "recv_text P c a p io =
           Some (Inr ([], None),
                 (snd (datetime_now P (fst io)), snd io @ [EvNow (fst (datetime_now P (fst io)))]))
         \<and> fst (send_text c t io) = Inl (RuntimeError ''Not connected.'')"
proof -
  have "await_data P c s io' = Closed io'" for s io'
    using assms(3) by (simp add: await_data_def)
  then have pass: "recv_pass P c ar pr s io' = Some (Break (flush s) io')" for ar pr s io'
    by (rule recv_pass_closed)
  show ?thesis
    using assms
    by (simp add: recv_text_def initial_state_def Let_def case_prod_beta read_clock_def
        recv_loop_break [OF pass] finish_def flush_def send_text_def)
qed

theorem recv_text_without_session_witness:
  "0 < recv_nbytes (new_client None :: fake_world client)
   \<and> 0 < recv_timeout (new_client None :: fake_world client)
   \<and> session (new_client None :: fake_world client) = None
   \<and> recv_text fake_platform (new_client None) None None (quiet_world, [])
       = Some (Inr ([], None), (quiet_world\<lparr>fw_clock := 1\<rparr>, [EvNow 0]))
   \<and> fst (send_text (new_client None) (ascii ''ls'') (quiet_world, []))
       = Inl (RuntimeError ''Not connected.'')"
  using recv_text_without_session
          [of "new_client None" fake_platform None None "(quiet_world, [])" "ascii ''ls''"]
  by (simp add: new_client_def fake_platform_def fake_now_def quiet_world_def)

text \<open>
  C7. When the channel reports closed at the first pass, \<^verbatim>\<open>recv_text\<close> returns the
  empty text and no prompt. No error is raised, and the channel is not polled or read:
  the clock reading of line 174 is the only new entry of the trace.
\<close>

theorem recv_text_closed_at_first_pass:
  assumes "0 < recv_nbytes c" and "0 < recv_timeout c" and "session c = Some chan"
    and "ch_closed chan (snd (datetime_now P (fst io)))"
  shows "recv_text P c a p io =
           Some (Inr ([], None),
                 (snd (datetime_now P (fst io)), snd io @ [EvNow (fst (datetime_now P (fst io)))]))"
proof -
  have "await_data P c s (snd (datetime_now P (fst io)), tr)
      = Closed (snd (datetime_now P (fst io)), tr)" for s tr
    using assms(3,4) by (simp add: await_data_def)
  then have pass: "recv_pass P c ar pr s (snd (datetime_now P (fst io)), tr)
      = Some (Break (flush s) (snd (datetime_now P (fst io)), tr))" for ar pr s tr
    by (rule recv_pass_closed)
  show ?thesis
    using assms(1,2)
    by (simp add: recv_text_def initial_state_def Let_def case_prod_beta read_clock_def
        recv_loop_break [OF pass] finish_def flush_def)
qed

theorem recv_text_closed_at_first_pass_witness:
  "0 < recv_nbytes (new_client (Some fake_channel))
   \<and> 0 < recv_timeout (new_client (Some fake_channel))
   \<and> session (new_client (Some fake_channel)) = Some fake_channel
   \<and> ch_closed fake_channel
       (snd (datetime_now fake_platform (fst (quiet_world\<lparr>fw_closed := True\<rparr>, []))))
   \<and> recv_text fake_platform (new_client (Some fake_channel)) None (Some [ascii ''prompt>''])
         (quiet_world\<lparr>fw_closed := True\<rparr>, [])
       = Some (Inr ([], None), (quiet_world\<lparr>fw_clock := 1, fw_closed := True\<rparr>, [EvNow 0]))"
  using recv_text_closed_at_first_pass
          [of "new_client (Some fake_channel)" fake_channel fake_platform
              "(quiet_world\<lparr>fw_closed := True\<rparr>, [])" None "Some [ascii ''prompt>'']"]
  by (simp add: new_client_def fake_platform_def fake_now_def fake_channel_def quiet_world_def)

subsection \<open>The scripted channel\<close>

lemma fake_drain:
  assumes "0 < n"
  shows "\<exists>evs. drain fake_channel n buf (w, tr)
           = Some (buf @ fw_avail w, (w\<lparr>fw_avail := []\<rparr>, tr @ evs))
         \<and> (\<forall>e\<in>set evs. \<not> is_send e)"
proof (induction "length (fw_avail w)" arbitrary: w buf tr rule: less_induct)
  case less
  show ?case
  proof (cases "fw_avail w = []")
    case True
    then have "w\<lparr>fw_avail := []\<rparr> = w" by simp
    with True have "drain fake_channel n buf (w, tr)
        = Some (buf @ fw_avail w, (w\<lparr>fw_avail := []\<rparr>, tr @ [EvRecvReady False]))"
      by (subst drain.simps) (simp add: fake_channel_def)
    then show ?thesis by fastforce
  next
    case False
    let ?w = "w\<lparr>fw_avail := drop (nat n) (fw_avail w)\<rparr>"
    let ?d = "take (nat n) (fw_avail w)"
    have step: "drain fake_channel n buf (w, tr)
        = drain fake_channel n (buf @ ?d) (?w, tr @ [EvRecvReady True, EvRecv n ?d])"
      using False by (subst drain.simps) (simp add: fake_channel_def fake_recv_def)
    have "length (fw_avail ?w) < length (fw_avail w)"
      using False assms by simp
    from less [OF this, of "buf @ ?d" "tr @ [EvRecvReady True, EvRecv n ?d]"]
    obtain evs where
      "drain fake_channel n (buf @ ?d) (?w, tr @ [EvRecvReady True, EvRecv n ?d])
         = Some ((buf @ ?d) @ fw_avail ?w,
                 (?w\<lparr>fw_avail := []\<rparr>, (tr @ [EvRecvReady True, EvRecv n ?d]) @ evs))"
      and "\<forall>e\<in>set evs. \<not> is_send e"
      by blast
    with step have "drain fake_channel n buf (w, tr)
        = Some (buf @ fw_avail w,
                (w\<lparr>fw_avail := []\<rparr>, tr @ ([EvRecvReady True, EvRecv n ?d] @ evs)))
      \<and> (\<forall>e\<in>set ([EvRecvReady True, EvRecv n ?d] @ evs). \<not> is_send e)"
      by simp
    then show ?thesis by blast
  qed
qed

subsection \<open>The auto-reply round trip\<close>

text \<open>
  C1. The auto-reply map sends \<^verbatim>\<open>Password:\<close> to \<^verbatim>\<open>secret\n\<close>, the prompt list is
  \<^verbatim>\<open>["prompt>"]\<close>, and the channel delivers \<^verbatim>\<open>Password:\<close> and, only after a
  write, \<^verbatim>\<open>prompt>\<close>. Then, whatever the chunk size and the timeout (both positive),
  \<^verbatim>\<open>recv_text\<close> returns \<^verbatim>\<open>("Password:prompt>", "prompt>")\<close>, and the channel's
  \<^verbatim>\<open>send\<close> is called exactly once, with the encoding of \<^verbatim>\<open>secret\n\<close>.
\<close>

theorem auto_reply_round_trip:
  assumes "0 < n" and "0 < T"
  shows "\<exists>w' tr.
           recv_text fake_platform (password_client n T) None None (password_world, [])
             = Some (Inr (ascii ''Password:prompt>'', Some (ascii ''prompt>'')), (w', tr))
           \<and> filter is_send tr = [EvSend (encode utf8 (ascii ''secret\<newline>'')) 7]
           \<and> fw_sent w' = [encode utf8 (ascii ''secret\<newline>'')]"
proof -
  let ?ar = "[(ascii ''Password:'', ascii ''secret\<newline>'')]"
  let ?pr = "[ascii ''prompt>'']"
  let ?c = "password_client n T"
  let ?s0 = "\<lparr>wait_start_time = 0, recv_buffer = [], text_buffer = [], text_archived = []\<rparr>"
  let ?tr0 = "[EvNow 0, EvNow 1, EvSelect (Some (max 0 (T - 1))) True]"
  let ?w0 = "password_world\<lparr>fw_clock := 2\<rparr>"
  from fake_drain [OF assms(1), of "[]" ?w0 ?tr0]
  obtain evs1 where
    d1: "drain fake_channel n [] (?w0, ?tr0)
           = Some ([] @ fw_avail ?w0, (?w0\<lparr>fw_avail := []\<rparr>, ?tr0 @ evs1))"
    and e1: "\<forall>e\<in>set evs1. \<not> is_send e"
    by blast
  let ?s1 = "\<lparr>wait_start_time = 2, recv_buffer = [], text_buffer = [],
              text_archived = ascii ''Password:''\<rparr>"
  let ?w1 = "password_world\<lparr>fw_clock := 3, fw_avail := encode utf8 (ascii ''prompt>''),
              fw_after_send := [], fw_sent := [encode utf8 (ascii ''secret\<newline>'')]\<rparr>"
  let ?tr1 = "?tr0 @ evs1 @ [EvSend (encode utf8 (ascii ''secret\<newline>'')) 7, EvNow 2]"
  have p1: "recv_pass fake_platform ?c ?ar ?pr ?s0
              (password_world\<lparr>fw_clock := 1\<rparr>, [EvNow 0])
              = Some (Continue ?s1 (?w1, ?tr1))"
    using assms(2) d1
    by (simp add: recv_pass_def await_data_def read_clock_def wait_recv_ready_def
        decode_classify_def classify_def classify_prompt_def try_decode_def notify_def truthy_def
        send_text_def fake_platform_def fake_now_def fake_channel_def fake_select_def
        fake_send_def password_client_def password_world_def quiet_world_def new_client_def utf8_def ascii_def
        utf8_encode_def utf8_encode_char_def emit_def Let_def)
  let ?tr2 = "?tr1 @ [EvNow 3, EvSelect (Some (max 0 (T - 1))) True]"
  let ?w2 = "?w1\<lparr>fw_clock := 4\<rparr>"
  from fake_drain [OF assms(1), of "[]" ?w2 ?tr2]
  obtain evs2 where
    d2: "drain fake_channel n [] (?w2, ?tr2)
           = Some ([] @ fw_avail ?w2, (?w2\<lparr>fw_avail := []\<rparr>, ?tr2 @ evs2))"
    and e2: "\<forall>e\<in>set evs2. \<not> is_send e"
    by blast
  have p2: "recv_pass fake_platform ?c ?ar ?pr ?s1 (?w1, ?tr1)
              = Some (Return (ascii ''Password:prompt>'', Some (ascii ''prompt>''))
                        (?w2\<lparr>fw_avail := []\<rparr>, ?tr2 @ evs2))"
    using assms(2) d2
    by (simp add: recv_pass_def await_data_def read_clock_def wait_recv_ready_def
        decode_classify_def classify_def classify_prompt_def try_decode_def notify_def truthy_def
        send_text_def fake_platform_def fake_now_def fake_channel_def fake_select_def
        fake_send_def password_client_def password_world_def quiet_world_def new_client_def utf8_def ascii_def
        utf8_encode_def utf8_encode_char_def emit_def Let_def)
  have "recv_text fake_platform ?c None None (password_world, [])
          = recv_loop fake_platform ?c ?ar ?pr ?s0
              (password_world\<lparr>fw_clock := 1\<rparr>, [EvNow 0])"
    using assms
    by (simp add: recv_text_def initial_state_def read_clock_def or_default_def
        fake_platform_def fake_now_def password_client_def password_world_def quiet_world_def
        new_client_def)
  also have "\<dots> = Some (Inr (ascii ''Password:prompt>'', Some (ascii ''prompt>'')),
                      (?w2\<lparr>fw_avail := []\<rparr>, ?tr2 @ evs2))"
    by (simp only: recv_loop_continue [OF p1] recv_loop_return [OF p2])
  finally have r: "recv_text fake_platform ?c None None (password_world, [])
      = Some (Inr (ascii ''Password:prompt>'', Some (ascii ''prompt>'')),
              (?w2\<lparr>fw_avail := []\<rparr>, ?tr2 @ evs2))" .
  have f: "filter is_send (?tr2 @ evs2) = [EvSend (encode utf8 (ascii ''secret\<newline>'')) 7]"
    using e1 e2 by (simp add: filter_empty_conv)
  have "fw_sent (?w2\<lparr>fw_avail := []\<rparr>) = [encode utf8 (ascii ''secret\<newline>'')]"
    by simp
  with r f show ?thesis by blast
qed

theorem auto_reply_round_trip_witness:
  "(0::int) < 4 \<and> (0::real) < 30
   \<and> (\<exists>w' tr.
         recv_text fake_platform (password_client 4 30) None None (password_world, [])
           = Some (Inr (ascii ''Password:prompt>'', Some (ascii ''prompt>'')), (w', tr))
         \<and> filter is_send tr = [EvSend (encode utf8 (ascii ''secret\<newline>'')) 7]
         \<and> fw_sent w' = [encode utf8 (ascii ''secret\<newline>'')])"
  using auto_reply_round_trip [of 4 30] by simp

subsection \<open>UTF-8: encoding, decoding, and characters cut in two\<close>

lemma emit_simps [simp]: "emit cp None = None" "emit cp (Some t) = Some (cp # t)"
  by (simp_all add: emit_def)

lemma utf8_encode_char_2:
  assumes "0x80 \<le> cp" "cp < 0x800"
  obtains a d where "utf8_encode_char cp = [0xC0 + a, 0x80 + d]"
    and "2 \<le> a" "a < 32" "d < 64" "cp = a * 64 + d"
proof -
  define a where "a = cp div 64"
  define d where "d = cp mod 64"
  have r: "2 \<le> a" "a < 32" "d < 64" using assms unfolding a_def d_def by arith+
  have cp: "cp = a * 64 + d" unfolding a_def d_def by simp
  have "utf8_encode_char cp = [0xC0 + a, 0x80 + d]"
    unfolding utf8_encode_char_def a_def d_def using assms by simp
  from that [OF this r cp] show ?thesis .
qed

lemma utf8_encode_char_3:
  assumes "0x800 \<le> cp" "cp < 0x10000" "scalar cp"
  obtains a b d where "utf8_encode_char cp = [0xE0 + a, 0x80 + b, 0x80 + d]"
    and "a < 16" "b < 64" "d < 64" "a = 0 \<longrightarrow> 32 \<le> b" "a = 13 \<longrightarrow> b < 32"
    and "cp = a * 4096 + b * 64 + d"
proof -
  define q where "q = cp div 64"
  define d where "d = cp mod 64"
  define a where "a = q div 64"
  define b where "b = q mod 64"
  have cpq: "cp = q * 64 + d" and d: "d < 64" unfolding q_def d_def by simp_all
  have qab: "q = a * 64 + b" and b: "b < 64" unfolding a_def b_def by simp_all
  have q: "32 \<le> q" "q < 1024" using assms(1,2) cpq d by linarith+
  have a: "a < 16" using q qab b by linarith
  have e0: "a = 0 \<longrightarrow> 32 \<le> b" using q qab by simp
  have "cp < 0xD800 \<or> 0xE000 \<le> cp" using assms(3) by (auto simp add: scalar_def)
  then have "q < 864 \<or> 896 \<le> q" using cpq d by linarith
  then have ed: "a = 13 \<longrightarrow> b < 32" using qab b by linarith
  have "cp div 4096 = a" unfolding a_def q_def by (simp add: div_mult2_eq)
  then have enc: "utf8_encode_char cp = [0xE0 + a, 0x80 + b, 0x80 + d]"
    unfolding utf8_encode_char_def b_def d_def q_def using assms by simp
  have cp: "cp = a * 4096 + b * 64 + d" using cpq qab by simp
  from enc a b d e0 ed cp show ?thesis by (rule that)
qed

lemma utf8_encode_char_4:
  assumes "0x10000 \<le> cp" "cp < 0x110000"
  obtains a b d f where "utf8_encode_char cp = [0xF0 + a, 0x80 + b, 0x80 + d, 0x80 + f]"
    and "a < 5" "b < 64" "d < 64" "f < 64" "a = 0 \<longrightarrow> 16 \<le> b" "a = 4 \<longrightarrow> b < 16"
    and "cp = a * 262144 + b * 4096 + d * 64 + f"
proof -
  define q where "q = cp div 64"
  define f where "f = cp mod 64"
  define p where "p = q div 64"
  define d where "d = q mod 64"
  define a where "a = p div 64"
  define b where "b = p mod 64"
  have cpq: "cp = q * 64 + f" and f: "f < 64" unfolding q_def f_def by simp_all
  have qpd: "q = p * 64 + d" and d: "d < 64" unfolding p_def d_def by simp_all
  have pab: "p = a * 64 + b" and b: "b < 64" unfolding a_def b_def by simp_all
  have q: "1024 \<le> q" "q < 17408" using assms cpq f by linarith+
  have p: "16 \<le> p" "p < 272" using q qpd d by linarith+
  have a: "a < 5" using p pab b by linarith
  have e0: "a = 0 \<longrightarrow> 16 \<le> b" using p pab by simp
  have e4: "a = 4 \<longrightarrow> b < 16" using p pab by simp
  have "cp div 4096 = p" "cp div 262144 = a"
    unfolding a_def p_def q_def by (simp_all add: div_mult2_eq)
  then have enc: "utf8_encode_char cp = [0xF0 + a, 0x80 + b, 0x80 + d, 0x80 + f]"
    unfolding utf8_encode_char_def b_def d_def f_def using assms
    by (simp add: p_def q_def div_mult2_eq)
  have cp: "cp = a * 262144 + b * 4096 + d * 64 + f" using cpq qpd pab by simp
  from enc a b d f e0 e4 cp show ?thesis by (rule that)
qed

lemma scalar_cases:
  assumes "scalar cp"
  obtains "cp < 0x80" | "0x80 \<le> cp" "cp < 0x800" | "0x800 \<le> cp" "cp < 0x10000"
    | "0x10000 \<le> cp" "cp < 0x110000"
  using assms unfolding scalar_def by linarith

text \<open>Decoding undoes encoding, in front of any further bytes.\<close>

lemma utf8_decode_encode_char:
  assumes "scalar cp"
  shows "utf8_decode e (utf8_encode_char cp @ rest) = emit cp (utf8_decode e rest)"
  using assms
proof (cases rule: scalar_cases)
  case 1
  then show ?thesis by (simp add: utf8_encode_char_def)
next
  case 2
  then obtain a d where "utf8_encode_char cp = [0xC0 + a, 0x80 + d]"
    and "2 \<le> a" "a < 32" "d < 64" "cp = a * 64 + d"
    by (rule utf8_encode_char_2)
  then show ?thesis by (simp add: is_cont_def)
next
  case 3
  from 3 assms obtain a b d where "utf8_encode_char cp = [0xE0 + a, 0x80 + b, 0x80 + d]"
    and "a < 16" "b < 64" "d < 64" "a = 0 \<longrightarrow> 32 \<le> b" "a = 13 \<longrightarrow> b < 32"
    and "cp = a * 4096 + b * 64 + d"
    by (rule utf8_encode_char_3 [of cp])
  then show ?thesis by (auto simp add: is_cont_def)
next
  case 4
  then obtain a b d f where "utf8_encode_char cp = [0xF0 + a, 0x80 + b, 0x80 + d, 0x80 + f]"
    and "a < 5" "b < 64" "d < 64" "f < 64" "a = 0 \<longrightarrow> 16 \<le> b" "a = 4 \<longrightarrow> b < 16"
    and "cp = a * 262144 + b * 4096 + d * 64 + f"
    by (rule utf8_encode_char_4)
  then show ?thesis by (auto simp add: is_cont_def)
qed

lemma utf8_decode_encode:
  assumes "\<forall>cp\<in>set t. scalar cp"
  shows "utf8_decode e (utf8_encode t @ rest) = map_option ((@) t) (utf8_decode e rest)"
  using assms
proof (induction t)
  case Nil
  then show ?case by (simp add: utf8_encode_def option.map_ident)
next
  case (Cons cp t)
  have "utf8_encode (cp # t) @ rest = utf8_encode_char cp @ (utf8_encode t @ rest)"
    by (simp add: utf8_encode_def)
  with Cons show ?case
    by (simp add: utf8_decode_encode_char emit_def option.map_comp comp_def)
qed

text \<open>A proper, non-empty part of the bytes of one character does not decode strictly.\<close>

lemma utf8_fragment_undecodable:
  assumes "scalar cp" and "0 < i" and "i < length (utf8_encode_char cp)"
  shows "utf8_decode Strict (take i (utf8_encode_char cp)) = None"
  using assms(1)
proof (cases rule: scalar_cases)
  case 1
  with assms(2,3) show ?thesis by (simp add: utf8_encode_char_def)
next
  case 2
  then obtain a d where enc: "utf8_encode_char cp = [0xC0 + a, 0x80 + d]"
    and "2 \<le> a" "a < 32" "d < 64" "cp = a * 64 + d"
    by (rule utf8_encode_char_2)
  moreover from assms(2,3) enc have "i = 1" by simp
  ultimately show ?thesis by (simp add: on_error_def)
next
  case 3
  from 3 assms(1) obtain a b d where enc: "utf8_encode_char cp = [0xE0 + a, 0x80 + b, 0x80 + d]"
    and r: "a < 16" "b < 64" "d < 64" "a = 0 \<longrightarrow> 32 \<le> b" "a = 13 \<longrightarrow> b < 32"
    and "cp = a * 4096 + b * 64 + d"
    by (rule utf8_encode_char_3 [of cp])
  from assms(2,3) enc have "i = 1 \<or> i = 2" by auto
  then show ?thesis using enc r by (auto simp add: on_error_def is_cont_def)
next
  case 4
  then obtain a b d f where enc: "utf8_encode_char cp = [0xF0 + a, 0x80 + b, 0x80 + d, 0x80 + f]"
    and r: "a < 5" "b < 64" "d < 64" "f < 64" "a = 0 \<longrightarrow> 16 \<le> b" "a = 4 \<longrightarrow> b < 16"
    and "cp = a * 262144 + b * 4096 + d * 64 + f"
    by (rule utf8_encode_char_4)
  from assms(2,3) enc have "i = 1 \<or> i = 2 \<or> i = 3" by auto
  then show ?thesis using enc r
    by (auto simp add: on_error_def is_cont_def numeral_2_eq_2 numeral_3_eq_3)
qed

lemma utf8_encode_char_bytes:
  assumes "scalar cp"
  shows "\<forall>b\<in>set (utf8_encode_char cp). b < 256"
  using assms
proof (cases rule: scalar_cases)
  case 1
  then show ?thesis by (simp add: utf8_encode_char_def)
next
  case 2
  then obtain a d where "utf8_encode_char cp = [0xC0 + a, 0x80 + d]"
    and "2 \<le> a" "a < 32" "d < 64" "cp = a * 64 + d"
    by (rule utf8_encode_char_2)
  then show ?thesis by simp
next
  case 3
  from 3 assms obtain a b d where "utf8_encode_char cp = [0xE0 + a, 0x80 + b, 0x80 + d]"
    and "a < 16" "b < 64" "d < 64" "a = 0 \<longrightarrow> 32 \<le> b" "a = 13 \<longrightarrow> b < 32"
    and "cp = a * 4096 + b * 64 + d"
    by (rule utf8_encode_char_3 [of cp])
  then show ?thesis by simp
next
  case 4
  then obtain a b d f where "utf8_encode_char cp = [0xF0 + a, 0x80 + b, 0x80 + d, 0x80 + f]"
    and "a < 5" "b < 64" "d < 64" "f < 64" "a = 0 \<longrightarrow> 16 \<le> b" "a = 4 \<longrightarrow> b < 16"
    and "cp = a * 262144 + b * 4096 + d * 64 + f"
    by (rule utf8_encode_char_4)
  then show ?thesis by simp
qed

lemma unat_of_nat_bytes:
  assumes "\<forall>b\<in>set bs. b < 256"
  shows "map unat (map of_nat bs :: bytes) = bs"
  using assms by (induction bs) (simp_all add: unat_of_nat)

lemma utf8_encode_bytes:
  assumes "\<forall>cp\<in>set t. scalar cp"
  shows "\<forall>b\<in>set (utf8_encode t). b < 256"
  using assms utf8_encode_char_bytes by (auto simp add: utf8_encode_def)

lemma utf8_decode_encode_whole:
  assumes "\<forall>cp\<in>set t. scalar cp"
  shows "utf8_decode e (utf8_encode t) = Some t"
  using utf8_decode_encode [OF assms, of e "[]"] by simp

lemma utf8_split_character:
  assumes "\<forall>x\<in>set t1. scalar x" and "scalar cp" and "\<forall>x\<in>set t2. scalar x"
    and "0 < i" and "i < length (encode utf8 [cp])"
  shows "try_decode (encode utf8 t1 @ take i (encode utf8 [cp])) utf8 = None
         \<and> try_decode
              ((encode utf8 t1 @ take i (encode utf8 [cp])) @ drop i (encode utf8 [cp])
                 @ encode utf8 t2) utf8
             = Some (t1 @ [cp] @ t2)"
proof -
  have enc: "encode utf8 t = map of_nat (utf8_encode t)" for t
    by (simp add: utf8_def)
  have dec: "try_decode data utf8 = utf8_decode Strict (map unat data)" for data
    by (simp add: try_decode_def utf8_def)
  have b1: "map unat (encode utf8 t1) = utf8_encode t1"
    unfolding enc by (rule unat_of_nat_bytes [OF utf8_encode_bytes [OF assms(1)]])
  have b2: "map unat (encode utf8 t2) = utf8_encode t2"
    unfolding enc by (rule unat_of_nat_bytes [OF utf8_encode_bytes [OF assms(3)]])
  have bc: "map unat (encode utf8 [cp]) = utf8_encode_char cp"
    using unat_of_nat_bytes [OF utf8_encode_char_bytes [OF assms(2)]]
    by (simp only: enc utf8_encode_def list.map concat.simps append_Nil2)
  have i: "i < length (utf8_encode_char cp)"
    using assms(5) by (simp add: enc utf8_encode_def)
  have m1: "map unat (encode utf8 t1 @ take i (encode utf8 [cp]))
          = utf8_encode t1 @ take i (utf8_encode_char cp)"
    by (simp add: b1 take_map [symmetric] bc)
  have first: "try_decode (encode utf8 t1 @ take i (encode utf8 [cp])) utf8 = None"
    unfolding dec m1 using assms(1,2,4) i
    by (simp add: utf8_decode_encode utf8_fragment_undecodable)
  have whole: "(encode utf8 t1 @ take i (encode utf8 [cp])) @ drop i (encode utf8 [cp])
            @ encode utf8 t2
          = encode utf8 t1 @ encode utf8 [cp] @ encode utf8 t2"
    using append_take_drop_id [of i "encode utf8 [cp]"] by (metis append_assoc)
  have m2: "map unat (encode utf8 t1 @ encode utf8 [cp] @ encode utf8 t2)
          = utf8_encode t1 @ utf8_encode_char cp @ utf8_encode t2"
    by (simp add: b1 b2 bc)
  have "try_decode
               ((encode utf8 t1 @ take i (encode utf8 [cp])) @ drop i (encode utf8 [cp])
                  @ encode utf8 t2) utf8
             = Some (t1 @ [cp] @ t2)"
    unfolding whole dec m2 using assms(1,2,3)
    by (simp add: utf8_decode_encode utf8_decode_encode_char utf8_decode_encode_whole)
  with first show ?thesis by simp
qed

text \<open>Decoding with replacement always gives a text.\<close>

lemma emit_total: "(emit cp r = None) = (r = None)"
  by (simp add: emit_def)

lemma on_error_replace_total: "(on_error Replace r = None) = (r = None)"
  by (simp add: on_error_def emit_def)

lemma utf8_decode_replace_total: "utf8_decode Replace bs \<noteq> None"
proof (induction "length bs" arbitrary: bs rule: less_induct)
  case less
  show ?case
  proof (cases bs)
    case Nil
    then show ?thesis by simp
  next
    case (Cons b0 r0)
    have ih: "utf8_decode Replace (drop k r0) \<noteq> None" for k
      using less [of "drop k r0"] Cons by simp
    from ih [of 0] have i0: "utf8_decode Replace r0 \<noteq> None" by simp
    have i1: "r0 = b1 # r1 \<Longrightarrow> utf8_decode Replace r1 \<noteq> None" for b1 r1
      using ih [of 1] by simp
    have i2: "r0 = b1 # b2 # r2 \<Longrightarrow> utf8_decode Replace r2 \<noteq> None" for b1 b2 r2
      using ih [of 2] by simp
    have i3: "r0 = b1 # b2 # b3 # r3 \<Longrightarrow> utf8_decode Replace r3 \<noteq> None"
      for b1 b2 b3 r3
      using ih [of 3] by simp
    show ?thesis
      unfolding Cons utf8_decode.simps
      using i0 i1 i2 i3
      by (auto simp add: emit_total on_error_replace_total split: list.splits
          simp del: utf8_decode.simps not_None_eq emit_simps)
  qed
qed

lemma utf8_decode_replace:
  "utf8_decode Replace (map unat data) = Some (decode_replace utf8 data)"
  using utf8_decode_replace_total [of "map unat data"] by (auto simp add: utf8_def)

subsection \<open>Classifying the text buffer\<close>

lemma find_pattern_Some:
  "find_pattern search ps t = Some p \<Longrightarrow> p \<in> set ps \<and> search p t"
  by (induction ps) (auto split: if_splits)

lemma decode_classify_undecodable:
  "try_decode (recv_buffer s) (encoding c) = None \<Longrightarrow>
   decode_classify P c ar pr s io = Continue s io"
  by (simp add: decode_classify_def)

lemma auto_reply_takes_precedence:
  assumes "find_pattern (re_search P) (map fst ar) (text_buffer s) = Some p" and "p \<noteq> []"
    and "session c = Some chan"
  shows "\<exists>reply. map_of ar p = Some reply
           \<and> classify P c ar pr s io =
               Continue
                 (s\<lparr>wait_start_time := fst (read_clock P (snd (send_text c reply io))),
                    text_archived := text_archived s @ text_buffer s,
                    text_buffer := []\<rparr>)
                 (snd (read_clock P (snd (send_text c reply io))))
           \<and> snd (snd (send_text c reply io))
               = snd io @ [EvSend (encode (encoding c) reply)
                             (fst (ch_send chan (encode (encoding c) reply) (fst io)))]"
proof -
  from assms(1) have "p \<in> fst ` set ar"
    using find_pattern_Some [of "re_search P" "map fst ar" "text_buffer s" p] by simp
  then obtain reply where r: "map_of ar p = Some reply"
    by (metis domD dom_map_of_conv_image_fst)
  have "send_text c reply io =
      (Inr (fst (ch_send chan (encode (encoding c) reply) (fst io))),
       (snd (ch_send chan (encode (encoding c) reply) (fst io)),
        snd io @ [EvSend (encode (encoding c) reply)
                    (fst (ch_send chan (encode (encoding c) reply) (fst io)))]))"
    using assms(3) by (simp add: send_text_def Let_def case_prod_beta)
  then show ?thesis
    using assms(1,2) r
    by (simp add: classify_def truthy_def case_prod_beta)
qed

lemmas eval_defs = recv_text_def initial_state_def recv_pass_def await_data_def read_clock_def wait_recv_ready_def
  decode_classify_def classify_def classify_prompt_def try_decode_def notify_def truthy_def
  send_text_def finish_def flush_def or_default_def
  fake_platform_def fake_now_def fake_channel_def fake_select_def fake_recv_def fake_send_def
  fake_observer_def
  quiet_world_def new_client_def utf8_def ascii_def utf8_encode_def utf8_encode_char_def
  is_cont_def on_error_def Let_def

text \<open>
  C5. A pass whose text buffer matches an auto-reply pattern and a prompt pattern
  should send the reply and go on. The code tests the pattern that \<^verbatim>\<open>_find_pattern\<close>
  returns for truth (line 201), and the empty pattern, which matches every text, is
  false: with the empty pattern as the only auto-reply key and the text
  \<^verbatim>\<open>prompt>\<close> received, both classifications find a pattern, yet nothing is sent
  and the call returns the prompt in that pass. Lemma \<open>auto_reply_takes_precedence\<close>
  is the property for a first matching pattern that is not empty.
\<close>

theorem empty_auto_reply_pattern_skipped:
  "find_pattern literal_search (map fst empty_pattern_replies) (ascii ''prompt>'') = Some []
   \<and> find_pattern literal_search [ascii ''prompt>''] (ascii ''prompt>'')
       = Some (ascii ''prompt>'')
   \<and> recv_text fake_platform (new_client (Some fake_channel))
         (Some empty_pattern_replies) (Some [ascii ''prompt>'']) (prompt_world, [])
       = Some (Inr (ascii ''prompt>'', Some (ascii ''prompt>'')),
               (quiet_world\<lparr>fw_clock := 2\<rparr>,
                [EvNow 0, EvNow 1, EvSelect (Some 29) True, EvRecvReady True,
                 EvRecv 1024 (encode utf8 (ascii ''prompt>'')), EvRecvReady False]))"
  by (simp add: eval_defs empty_pattern_replies_def prompt_world_def drain.simps
      recv_loop.simps)

subsection \<open>The end of the call\<close>

text \<open>
  C4. When a pass ends the loop, by the closed channel or by the timeout of the wait,
  and the raw buffer is not empty, the call returns the text variables followed by
  the raw buffer decoded with replacement, and no prompt. If an observer is set, it is
  called once more, with exactly that decoded remainder; otherwise nothing else happens.
\<close>

theorem trailing_bytes_decoded_leniently:
  assumes "await_data P c s io = Closed io' \<or> await_data P c s io = TimedOut io'"
    and "recv_buffer s \<noteq> []"
  shows "recv_loop P c ar pr s io =
           Some (Inr (text_archived (flush s) @ text_buffer (flush s)
                        @ decode_replace (encoding c) (recv_buffer s), None),
                 (case on_recv_partial_text c of
                    None \<Rightarrow> io'
                  | Some handler \<Rightarrow>
                      (handler (decode_replace (encoding c) (recv_buffer s)) (fst io'),
                       snd io' @ [EvObserve (decode_replace (encoding c) (recv_buffer s))])))"
proof -
  from assms(1) have "recv_pass P c ar pr s io = Some (Break (flush s) io')"
    by (auto simp: recv_pass_closed recv_pass_timed_out)
  from recv_loop_break [OF this] assms(2) show ?thesis
    by (simp add: finish_def flush_def notify_def Let_def split: option.splits)
qed

theorem trailing_bytes_decoded_leniently_witness:
  "(await_data fake_platform observed_client cut_off_state (quiet_world, [])
      = Closed (quiet_world\<lparr>fw_clock := 31\<rparr>, [EvNow 0, EvSelect (Some 30) False])
    \<or> await_data fake_platform observed_client cut_off_state (quiet_world, [])
      = TimedOut (quiet_world\<lparr>fw_clock := 31\<rparr>, [EvNow 0, EvSelect (Some 30) False]))
   \<and> recv_buffer cut_off_state \<noteq> []
   \<and> recv_loop fake_platform observed_client [] [] cut_off_state (quiet_world, [])
       = Some (Inr (ascii ''ok'' @ [0xFFFD], None),
               (quiet_world\<lparr>fw_clock := 31, fw_seen := [[0xFFFD]]\<rparr>,
                [EvNow 0, EvSelect (Some 30) False, EvObserve [0xFFFD]]))"
proof -
  have a: "await_data fake_platform observed_client cut_off_state (quiet_world, [])
      = TimedOut (quiet_world\<lparr>fw_clock := 31\<rparr>, [EvNow 0, EvSelect (Some 30) False])"
    by (simp add: eval_defs observed_client_def cut_off_state_def)
  have b: "recv_buffer cut_off_state \<noteq> []"
    by (simp add: cut_off_state_def)
  from trailing_bytes_decoded_leniently [OF disjI2 [OF a] b, of "[]" "[]"] a b
  show ?thesis
    by (simp add: eval_defs observed_client_def cut_off_state_def)
qed

text \<open>
  C3. A character whose bytes arrive in two reads should be in the returned text
  exactly once. The decoding does its part (lemma \<open>utf8_split_character\<close>, lemma
  \<open>decode_classify_undecodable\<close>): the first byte of \<^verbatim>\<open>U+00E9\<close> alone does not
  decode, both bytes decode to the one character, and the observer sees it once. But
  when the call then ends by timeout, line 188 appends the text buffer to the archive
  without emptying it and line 222 adds it again: the text returned has the
  character twice.
\<close>

theorem split_character_returned_twice:
  "try_decode [0xC3] utf8 = None
   \<and> try_decode [0xC3, 0xA9] utf8 = Some [0xE9]
   \<and> recv_text fake_platform observed_client None None (split_char_world, [])
       = Some (Inr ([0xE9, 0xE9], None),
               (quiet_world\<lparr>fw_clock := 31, fw_seen := [[0xE9]]\<rparr>,
                [EvNow 0,
                 EvNow 1, EvSelect (Some 29) True, EvRecvReady True, EvRecv 1024 [0xC3],
                 EvRecvReady False,
                 EvNow 2, EvSelect (Some 28) True, EvRecvReady True, EvRecv 1024 [0xA9],
                 EvRecvReady False, EvObserve [0xE9],
                 EvNow 3, EvSelect (Some 27) False]))"
  by (simp add: eval_defs observed_client_def split_char_world_def drain.simps recv_loop.simps)

subsection \<open>What a pass does to the trace and to the buffers\<close>

lemma received_append [simp]: "received (xs @ ys) = received xs @ received ys"
  by (induction xs rule: received.induct) simp_all

lemma received_no_read: "\<forall>e\<in>set evs. \<not> is_read e \<Longrightarrow> received evs = []"
  by (induction evs rule: received.induct) simp_all

lemma drain_events_raw:
  assumes "drain chan n buf io = Some r"
  shows "\<exists>evs. snd (snd r) = snd io @ evs \<and> fst r = buf @ received evs
           \<and> (\<forall>e\<in>set evs. is_read e)"
proof -
  define Q where "Q = (\<lambda>(chan :: 'a channel) (n :: int) buf (io :: 'a io) (r :: bytes \<times> 'a io).
      \<exists>evs. snd (snd r) = snd io @ evs \<and> fst r = buf @ received evs
        \<and> (\<forall>e\<in>set evs. is_read e))"
  have "Q chan n buf io r"
  proof (rule drain.raw_induct [where P = Q, OF _ assms])
    fix drain' and chan :: "'a channel" and n buf and io :: "'a io" and r
    assume IH: "\<And>chan n buf io r. drain' chan n buf io = Some r \<Longrightarrow> Q chan n buf io r"
      and body: "(case ch_recv_ready chan (fst io) of
          (ready, w1) \<Rightarrow>
            if ready then
              (case ch_recv chan n w1 of
                 (data, w2) \<Rightarrow>
                   drain' chan n (buf @ data) (w2, snd io @ [EvRecvReady True, EvRecv n data]))
            else Some (buf, (w1, snd io @ [EvRecvReady False]))) = Some r"
    show "Q chan n buf io r"
    proof (cases "fst (ch_recv_ready chan (fst io))")
      case False
      with body have "fst r = buf" "snd (snd r) = snd io @ [EvRecvReady False]"
        by (auto simp: case_prod_beta)
      then have "snd (snd r) = snd io @ [EvRecvReady False]
          \<and> fst r = buf @ received [EvRecvReady False]
          \<and> (\<forall>e\<in>set [EvRecvReady False]. is_read e)"
        by simp
      then show ?thesis unfolding Q_def by blast
    next
      case True
      define data where "data = fst (ch_recv chan n (snd (ch_recv_ready chan (fst io))))"
      define w2 where "w2 = snd (ch_recv chan n (snd (ch_recv_ready chan (fst io))))"
      from True body have "drain' chan n (buf @ data)
          (w2, snd io @ [EvRecvReady True, EvRecv n data]) = Some r"
        by (simp add: case_prod_beta data_def w2_def)
      from IH [OF this] obtain evs where
        "snd (snd r) = (snd io @ [EvRecvReady True, EvRecv n data]) @ evs"
        "fst r = (buf @ data) @ received evs" "\<forall>e\<in>set evs. is_read e"
        unfolding Q_def by auto
      then have "snd (snd r) = snd io @ ([EvRecvReady True, EvRecv n data] @ evs)
          \<and> fst r = buf @ received ([EvRecvReady True, EvRecv n data] @ evs)
          \<and> (\<forall>e\<in>set ([EvRecvReady True, EvRecv n data] @ evs). is_read e)"
        by simp
      then show ?thesis unfolding Q_def by blast
    qed
  qed
  then show ?thesis by (simp add: Q_def)
qed

lemma drain_events:
  assumes "drain chan n buf io = Some (buf', io')"
  obtains evs where "snd io' = snd io @ evs" and "buf' = buf @ received evs"
    and "\<forall>e\<in>set evs. is_read e"
  using drain_events_raw [OF assms] by auto


lemma await_data_closed: "await_data P c s io = Closed io' \<Longrightarrow> io' = io"
  by (auto simp: await_data_def Let_def case_prod_beta split: option.splits if_splits)

lemma await_data_polled:
  assumes "await_data P c s io = TimedOut io' \<or> await_data P c s io = Ready chan io'"
  shows "snd io' = snd io @
           [EvNow (fst (datetime_now P (fst io))),
            EvSelect (Some (max 0 (recv_timeout c
                                     - (fst (datetime_now P (fst io)) - wait_start_time s))))
              (await_data P c s io = Ready chan io')]"
  using assms
  by (auto simp: await_data_def read_clock_def wait_recv_ready_def Let_def case_prod_beta
      split: option.splits if_splits)

lemma recv_pass_cases:
  assumes "recv_pass P c ar pr s io = Some out"
  obtains (closed) io' where "await_data P c s io = Closed io'" and "out = Break (flush s) io'"
  | (timeout) io' where "await_data P c s io = TimedOut io'" and "out = Break (flush s) io'"
  | (ready) chan io2 buf io3 where "await_data P c s io = Ready chan io2"
      and "drain chan (recv_nbytes c) (recv_buffer s) io2 = Some (buf, io3)"
      and "out = decode_classify P c ar pr (s\<lparr>recv_buffer := buf\<rparr>) io3"
  using assms by (auto simp: recv_pass_def split: waited.splits option.splits)




subsection \<open>The buffers\<close>



subsection \<open>The idle timeout\<close>

lemma deadline_append: "deadline T (tr @ evs) = foldl (watch T) (deadline T tr) evs"
  by (simp add: deadline_def)

lemma watch_reads: "\<forall>e\<in>set evs. is_read e \<Longrightarrow> foldl (watch T) v evs = v"
proof (induction evs arbitrary: v)
  case Nil
  then show ?case by simp
next
  case (Cons e evs)
  then have "watch T v e = v" by (cases e) (simp_all add: watch_def)
  with Cons show ?case by simp
qed

lemma watch_no_send:
  assumes "\<not> armed v" and "\<forall>e\<in>set evs. \<not> is_send e"
  shows "reference (foldl (watch T) v evs) = reference v \<and> \<not> armed (foldl (watch T) v evs)"
  using assms
proof (induction evs arbitrary: v)
  case Nil
  then show ?case by simp
next
  case (Cons e evs)
  then have "reference (watch T v e) = reference v \<and> \<not> armed (watch T v e)"
    by (cases e) (simp_all add: watch_def)
  with Cons show ?case by simp
qed

lemma classify_events:
  "\<exists>evs. snd (outcome_io (classify P c ar pr s io)) = snd io @ evs
     \<and> (\<forall>s' io'. classify P c ar pr s io = Continue s' io' \<longrightarrow>
           (wait_start_time s' = wait_start_time s \<and> evs = [])
           \<or> (\<exists>data k. evs = [EvSend data k, EvNow (wait_start_time s')]))
     \<and> (\<forall>e\<in>set evs. \<not> is_read e \<and> \<not> is_select e)"
  by (auto simp: classify_def classify_prompt_def send_text_def read_clock_def Let_def
      case_prod_beta split: option.splits if_splits sum.splits)


lemma decode_classify_events:
  "\<exists>evs. snd (outcome_io (decode_classify P c ar pr s io)) = snd io @ evs
     \<and> (\<forall>s' io'. decode_classify P c ar pr s io = Continue s' io' \<longrightarrow>
           (wait_start_time s' = wait_start_time s \<and> (\<forall>e\<in>set evs. \<not> is_send e))
           \<or> (\<exists>pre data k. evs = pre @ [EvSend data k, EvNow (wait_start_time s')]))
     \<and> (\<forall>e\<in>set evs. \<not> is_read e \<and> \<not> is_select e)"
proof (cases "try_decode (recv_buffer s) (encoding c)")
  case None
  then show ?thesis by (simp add: decode_classify_def)
next
  case (Some t)
  define s1 where "s1 = s\<lparr>text_buffer := text_buffer s @ t, recv_buffer := []\<rparr>"
  define obs where "obs = (case on_recv_partial_text c of None \<Rightarrow> [] | Some h \<Rightarrow> [EvObserve t])"
  have n: "snd (notify c t io) = snd io @ obs"
    by (simp add: notify_def obs_def split: option.splits)
  have o: "\<forall>e\<in>set obs. \<not> is_send e \<and> \<not> is_read e \<and> \<not> is_select e"
    by (simp add: obs_def split: option.splits)
  have dc: "decode_classify P c ar pr s io = classify P c ar pr s1 (notify c t io)"
    using Some by (simp add: decode_classify_def s1_def)
  from classify_events [of P c ar pr s1 "notify c t io"] obtain evs where
    e1: "snd (outcome_io (classify P c ar pr s1 (notify c t io))) = snd (notify c t io) @ evs"
    and e2: "\<forall>s' io'. classify P c ar pr s1 (notify c t io) = Continue s' io' \<longrightarrow>
           (wait_start_time s' = wait_start_time s1 \<and> evs = [])
           \<or> (\<exists>data k. evs = [EvSend data k, EvNow (wait_start_time s')])"
    and e3: "\<forall>e\<in>set evs. \<not> is_read e \<and> \<not> is_select e"
    by blast
  have "snd (outcome_io (decode_classify P c ar pr s io)) = snd io @ (obs @ evs)"
    using e1 n dc by simp
  moreover have "\<forall>s' io'. decode_classify P c ar pr s io = Continue s' io' \<longrightarrow>
           (wait_start_time s' = wait_start_time s \<and> (\<forall>e\<in>set (obs @ evs). \<not> is_send e))
           \<or> (\<exists>pre data k. obs @ evs = pre @ [EvSend data k, EvNow (wait_start_time s')])"
    using e2 o dc by (auto simp: s1_def)
  moreover have "\<forall>e\<in>set (obs @ evs). \<not> is_read e \<and> \<not> is_select e"
    using e3 o by auto
  ultimately show ?thesis by blast
qed

lemma watch_no_select:
  assumes "\<forall>e\<in>set evs. \<not> is_select e"
  shows "waits_ok (foldl (watch T) v evs) = waits_ok v"
  using assms
proof (induction evs arbitrary: v)
  case Nil
  then show ?case by simp
next
  case (Cons e evs)
  then have "waits_ok (watch T v e) = waits_ok v" by (cases e) (simp_all add: watch_def)
  with Cons show ?case by simp
qed

lemma watch_reset:
  "reference (foldl (watch T) v (pre @ [EvSend data k, EvNow t])) = t
   \<and> \<not> armed (foldl (watch T) v (pre @ [EvSend data k, EvNow t]))"
  by (simp add: watch_def)

lemma pass_deadline:
  assumes ref: "reference (deadline (recv_timeout c) (snd io)) = wait_start_time s"
    and arm: "\<not> armed (deadline (recv_timeout c) (snd io))"
    and ok: "waits_ok (deadline (recv_timeout c) (snd io))"
    and pass: "recv_pass P c ar pr s io = Some out"
  shows "waits_ok (deadline (recv_timeout c) (snd (outcome_io out)))
         \<and> (\<forall>s' io'. out = Continue s' io' \<longrightarrow>
               reference (deadline (recv_timeout c) (snd io')) = wait_start_time s'
               \<and> \<not> armed (deadline (recv_timeout c) (snd io'))
               \<and> (\<exists>evs. snd io' = snd io @ evs
                     \<and> (wait_start_time s' \<noteq> wait_start_time s \<longrightarrow> (\<exists>e\<in>set evs. is_send e))))"
  using pass
proof (cases rule: recv_pass_cases)
  case (closed io')
  with ok await_data_closed [OF closed(1)] show ?thesis by simp
next
  case (timeout io')
  define t where "t = fst (datetime_now P (fst io))"
  from timeout(1) have "snd io' = snd io @
      [EvNow t, EvSelect (Some (max 0 (recv_timeout c - (t - wait_start_time s)))) False]"
    using await_data_polled [of P c s io io'] by (simp add: t_def)
  with ref arm ok timeout(2) show ?thesis
    by (simp add: deadline_append watch_def)
next
  case (ready chan io2 buf io3)
  let ?T = "recv_timeout c"
  define t where "t = fst (datetime_now P (fst io))"
  define polled where "polled =
      [EvNow t, EvSelect (Some (max 0 (?T - (t - wait_start_time s)))) True]"
  from ready(1) have tr2: "snd io2 = snd io @ polled"
    using await_data_polled [of P c s io io2 chan] by (simp add: t_def polled_def)
  with ref arm ok have v2: "reference (deadline ?T (snd io2)) = wait_start_time s"
    "\<not> armed (deadline ?T (snd io2))" "waits_ok (deadline ?T (snd io2))"
    by (simp_all add: deadline_append watch_def polled_def)
  from ready(2) obtain reads where tr3: "snd io3 = snd io2 @ reads"
    and reads: "\<forall>e\<in>set reads. is_read e"
    by (rule drain_events)
  then have v3: "deadline ?T (snd io3) = deadline ?T (snd io2)"
    by (simp add: deadline_append watch_reads)
  let ?s = "s\<lparr>recv_buffer := buf\<rparr>"
  from decode_classify_events [of P c ar pr ?s io3] ready(3) obtain evs where
    tr4: "snd (outcome_io out) = snd io3 @ evs"
    and cont: "\<forall>s' io'. out = Continue s' io' \<longrightarrow>
           (wait_start_time s' = wait_start_time ?s \<and> (\<forall>e\<in>set evs. \<not> is_send e))
           \<or> (\<exists>pre data k. evs = pre @ [EvSend data k, EvNow (wait_start_time s')])"
    and quiet: "\<forall>e\<in>set evs. \<not> is_read e \<and> \<not> is_select e"
    by auto
  have okay: "waits_ok (deadline ?T (snd (outcome_io out)))"
    using tr4 v3 v2(3) quiet by (simp add: deadline_append watch_no_select)
  have "reference (deadline ?T (snd io')) = wait_start_time s'
        \<and> \<not> armed (deadline ?T (snd io'))
        \<and> (\<exists>evs. snd io' = snd io @ evs
              \<and> (wait_start_time s' \<noteq> wait_start_time s \<longrightarrow> (\<exists>e\<in>set evs. is_send e)))"
    if c: "out = Continue s' io'" for s' io'
  proof -
    from c tr4 tr3 tr2 have whole: "snd io' = snd io @ (polled @ reads @ evs)" by simp
    from c tr4 have "deadline ?T (snd io') = foldl (watch ?T) (deadline ?T (snd io3)) evs"
      by (simp add: deadline_append)
    then have v4: "deadline ?T (snd io') = foldl (watch ?T) (deadline ?T (snd io2)) evs"
      by (simp only: v3)
    from cont c consider
      (same) "wait_start_time s' = wait_start_time s" "\<forall>e\<in>set evs. \<not> is_send e"
      | (reset) pre data k where "evs = pre @ [EvSend data k, EvNow (wait_start_time s')]"
      by auto
    then show ?thesis
    proof cases
      case same
      from watch_no_send [OF v2(2) same(2), of ?T] v2(1) same(1)
      have "reference (deadline ?T (snd io')) = wait_start_time s'
          \<and> \<not> armed (deadline ?T (snd io'))"
        by (simp add: v4)
      with whole same(1) show ?thesis by blast
    next
      case reset
      have "reference (deadline ?T (snd io')) = wait_start_time s'
          \<and> \<not> armed (deadline ?T (snd io'))"
        unfolding v4 reset by (rule watch_reset)
      moreover have "\<exists>e\<in>set (polled @ reads @ evs). is_send e"
        unfolding reset by simp
      ultimately show ?thesis using whole by blast
    qed
  qed
  with okay show ?thesis by blast
qed

lemma deadline_invariant:
  assumes "read_clock P (w, []) = (t0, io0)"
    and "after_passes P c ar pr n (initial_state t0) io0 = Some (s, io)"
  shows "waits_ok (deadline (recv_timeout c) (snd io))
         \<and> reference (deadline (recv_timeout c) (snd io)) = wait_start_time s
         \<and> \<not> armed (deadline (recv_timeout c) (snd io))"
  using assms(2)
proof (induction n arbitrary: s io)
  case 0
  from assms(1) have "snd io0 = [EvNow t0]"
    by (auto simp: read_clock_def case_prod_beta)
  with 0 show ?case
    by (auto simp: initial_state_def deadline_def watch_def at_call_start_def)
next
  case (Suc n)
  from Suc.prems obtain s1 io1 where
    before: "after_passes P c ar pr n (initial_state t0) io0 = Some (s1, io1)"
    and pass: "recv_pass P c ar pr s1 io1 = Some (Continue s io)"
    by (auto split: option.splits outcome.splits)
  from Suc.IH [OF before] have
    "reference (deadline (recv_timeout c) (snd io1)) = wait_start_time s1"
    "\<not> armed (deadline (recv_timeout c) (snd io1))"
    "waits_ok (deadline (recv_timeout c) (snd io1))"
    by simp_all
  from pass_deadline [OF this pass] show ?case by (cases io) auto
qed

text \<open>
  C2. At the head of the loop, after any number of passes of a call,
  \<^verbatim>\<open>wait_start_time\<close> is the reference point that the trace gives: the clock reading
  at the start of the call or, if a reply has been sent, the reading that followed the
  last send. Every wait of the call so far, and the wait of the pass that follows, was
  given \<open>max(0, recv_timeout - elapsed)\<close>, with \<open>elapsed\<close> measured from that reference
  point. A pass changes \<^verbatim>\<open>wait_start_time\<close> only if it sends a reply: a pass that decodes
  text and matches no auto-reply pattern leaves it as it was.
\<close>

theorem deadline_moves_only_with_a_reply:
  assumes "read_clock P (w, []) = (t0, io0)"
    and "after_passes P c ar pr n (initial_state t0) io0 = Some (s, io)"
  shows "reference (deadline (recv_timeout c) (snd io)) = wait_start_time s
         \<and> waits_ok (deadline (recv_timeout c) (snd io))
         \<and> (\<forall>out. recv_pass P c ar pr s io = Some out \<longrightarrow>
               waits_ok (deadline (recv_timeout c) (snd (outcome_io out))))
         \<and> (\<forall>chan io'.
               await_data P c s io = TimedOut io' \<or> await_data P c s io = Ready chan io' \<longrightarrow>
               snd io' = snd io @
                 [EvNow (fst (datetime_now P (fst io))),
                  EvSelect
                    (Some (max 0 (recv_timeout c
                                    - (fst (datetime_now P (fst io)) - wait_start_time s))))
                    (await_data P c s io = Ready chan io')])
         \<and> (\<forall>s' io'. recv_pass P c ar pr s io = Some (Continue s' io') \<longrightarrow>
               (\<exists>evs. snd io' = snd io @ evs
                  \<and> (wait_start_time s' \<noteq> wait_start_time s \<longrightarrow> (\<exists>e\<in>set evs. is_send e))))
         \<and> (\<forall>buf io3 t s' io'.
               try_decode buf (encoding c) = Some t
               \<and> find_pattern (re_search P) (map fst ar) (text_buffer s @ t) = None
               \<and> decode_classify P c ar pr (s\<lparr>recv_buffer := buf\<rparr>) io3 = Continue s' io' \<longrightarrow>
               wait_start_time s' = wait_start_time s)"
proof -
  have unmatched: "wait_start_time s' = wait_start_time s"
    if "try_decode buf (encoding c) = Some t"
      and "find_pattern (re_search P) (map fst ar) (text_buffer s @ t) = None"
      and "decode_classify P c ar pr (s\<lparr>recv_buffer := buf\<rparr>) io3 = Continue s' io'"
    for buf io3 t s' io'
    using that
    by (auto simp: decode_classify_def classify_def classify_prompt_def Let_def
        split: option.splits if_splits)
  from deadline_invariant [OF assms] have
    inv: "reference (deadline (recv_timeout c) (snd io)) = wait_start_time s"
      "\<not> armed (deadline (recv_timeout c) (snd io))"
      "waits_ok (deadline (recv_timeout c) (snd io))"
    by simp_all
  have "waits_ok (deadline (recv_timeout c) (snd (outcome_io out)))
      \<and> (\<forall>s' io'. out = Continue s' io' \<longrightarrow>
            (\<exists>evs. snd io' = snd io @ evs
               \<and> (wait_start_time s' \<noteq> wait_start_time s \<longrightarrow> (\<exists>e\<in>set evs. is_send e))))"
    if "recv_pass P c ar pr s io = Some out" for out
    using pass_deadline [OF inv that] by blast
  with inv await_data_polled [of P c s io] unmatched show ?thesis by blast
qed

theorem deadline_moves_only_with_a_reply_witness:
  "read_clock fake_platform (password_world, [])
     = (0, (password_world\<lparr>fw_clock := 1\<rparr>, [EvNow 0]))
   \<and> after_passes fake_platform (password_client 1024 30)
         [(ascii ''Password:'', ascii ''secret\<newline>'')] [ascii ''prompt>''] (Suc 0)
         (initial_state 0) (password_world\<lparr>fw_clock := 1\<rparr>, [EvNow 0])
       = Some (\<lparr>wait_start_time = 2, recv_buffer = [], text_buffer = [],
                 text_archived = ascii ''Password:''\<rparr>,
               (password_world
                  \<lparr>fw_clock := 3, fw_avail := encode utf8 (ascii ''prompt>''),
                   fw_after_send := [],
                   fw_sent := [encode utf8 (ascii ''secret\<newline>'')]\<rparr>,
                [EvNow 0,
                 EvNow 1, EvSelect (Some 29) True, EvRecvReady True,
                 EvRecv 1024 (encode utf8 (ascii ''Password:'')), EvRecvReady False,
                 EvSend (encode utf8 (ascii ''secret\<newline>'')) 7, EvNow 2]))
   \<and> reference
         (deadline 30
            [EvNow 0,
             EvNow 1, EvSelect (Some 29) True, EvRecvReady True,
             EvRecv 1024 (encode utf8 (ascii ''Password:'')), EvRecvReady False,
             EvSend (encode utf8 (ascii ''secret\<newline>'')) 7, EvNow 2]) = 2
   \<and> waits_ok
         (deadline 30
            [EvNow 0,
             EvNow 1, EvSelect (Some 29) True, EvRecvReady True,
             EvRecv 1024 (encode utf8 (ascii ''Password:'')), EvRecvReady False,
             EvSend (encode utf8 (ascii ''secret\<newline>'')) 7, EvNow 2])"
proof -
  have a: "read_clock fake_platform (password_world, [])
     = (0, (password_world\<lparr>fw_clock := 1\<rparr>, [EvNow 0]))"
    by (simp add: read_clock_def fake_platform_def fake_now_def password_world_def
        quiet_world_def)
  have b: "after_passes fake_platform (password_client 1024 30)
         [(ascii ''Password:'', ascii ''secret\<newline>'')] [ascii ''prompt>''] (Suc 0)
         (initial_state 0) (password_world\<lparr>fw_clock := 1\<rparr>, [EvNow 0])
       = Some (\<lparr>wait_start_time = 2, recv_buffer = [], text_buffer = [],
                 text_archived = ascii ''Password:''\<rparr>,
               (password_world
                  \<lparr>fw_clock := 3, fw_avail := encode utf8 (ascii ''prompt>''),
                   fw_after_send := [],
                   fw_sent := [encode utf8 (ascii ''secret\<newline>'')]\<rparr>,
                [EvNow 0,
                 EvNow 1, EvSelect (Some 29) True, EvRecvReady True,
                 EvRecv 1024 (encode utf8 (ascii ''Password:'')), EvRecvReady False,
                 EvSend (encode utf8 (ascii ''secret\<newline>'')) 7, EvNow 2]))"
    by (simp add: eval_defs password_client_def password_world_def drain.simps)
  from deadline_moves_only_with_a_reply [OF a b] a b show ?thesis
    by (simp add: password_client_def new_client_def)
qed

subsection \<open>The repository's tests, on the model\<close>

text \<open>
  What \<^verbatim>\<open>tests/test_isshc.py\<close> expects of \<^verbatim>\<open>_try_decode\<close>, \<^verbatim>\<open>_find_pattern\<close> and of
  \<^verbatim>\<open>recv_text\<close> on undecodable bytes and on a silent channel.
\<close>

lemma test_try_decode:
  "try_decode (encode utf8 (ascii ''hello'')) utf8 = Some (ascii ''hello'')"
  "try_decode [0xFF, 0xFF] utf8 = None"
  by (simp_all add: try_decode_def utf8_def ascii_def utf8_encode_def utf8_encode_char_def
      on_error_def)

lemma test_find_pattern:
  "find_pattern literal_search [ascii ''world'', ascii ''test''] (ascii ''hello world'')
     = Some (ascii ''world'')"
  "find_pattern literal_search [ascii ''abc'', ascii ''def''] (ascii ''hello world'') = None"
  by (simp_all add: ascii_def)

lemma test_recv_text_decode_fails:
  "recv_text fake_platform observed_client None (Some [ascii ''prompt>''])
     (quiet_world\<lparr>fw_avail := [0xFF, 0xFE], fw_later := [[0xFF, 0xFE]]\<rparr>, [])
   = Some (Inr ([0xFFFD, 0xFFFD, 0xFFFD, 0xFFFD], None),
           (quiet_world\<lparr>fw_clock := 31, fw_seen := [[0xFFFD, 0xFFFD, 0xFFFD, 0xFFFD]]\<rparr>,
            [EvNow 0,
             EvNow 1, EvSelect (Some 29) True, EvRecvReady True, EvRecv 1024 [0xFF, 0xFE],
             EvRecvReady False,
             EvNow 2, EvSelect (Some 28) True, EvRecvReady True, EvRecv 1024 [0xFF, 0xFE],
             EvRecvReady False,
             EvNow 3, EvSelect (Some 27) False,
             EvObserve [0xFFFD, 0xFFFD, 0xFFFD, 0xFFFD]]))"
  by (simp add: eval_defs observed_client_def drain.simps recv_loop.simps)

lemma test_recv_text_wait_recv_ready_timeout:
  "recv_text fake_platform (new_client (Some fake_channel)) None None (quiet_world, [])
   = Some (Inr ([], None),
           (quiet_world\<lparr>fw_clock := 31\<rparr>, [EvNow 0, EvNow 1, EvSelect (Some 29) False]))"
  by (simp add: eval_defs drain.simps recv_loop.simps)

end
